theory Spec2Isabelle
  imports Complex_Main "HOL-Library.Sublist" "HOL-Library.Multiset"
begin

section \<open>Python strings\<close>

text \<open>
  A Python \<^verbatim>\<open>str\<close> is a sequence of Unicode code points; \<^verbatim>\<open>len\<close>, slicing,
  \<^verbatim>\<open>startswith\<close> and \<^verbatim>\<open>count\<close> count code points. A string is therefore
  modelled as the list of its code points, and an ASCII literal is written
  \<open>pstr ''...''\<close>.
\<close>

type_synonym pystr = "nat list"

definition pstr :: "string \<Rightarrow> pystr" where
  "pstr s = map of_char s"

text \<open>
  The code points for which \<^verbatim>\<open>str.isspace\<close> holds; \<^verbatim>\<open>strip\<close>,
  \<^verbatim>\<open>lstrip\<close> and \<^verbatim>\<open>split\<close> without a separator work on exactly these.
\<close>

definition is_space :: "nat \<Rightarrow> bool" where
  "is_space c \<longleftrightarrow>
     (9 \<le> c \<and> c \<le> 13) \<or> (28 \<le> c \<and> c \<le> 32) \<or> c = 133 \<or> c = 160 \<or> c = 5760 \<or>
     (8192 \<le> c \<and> c \<le> 8202) \<or> c = 8232 \<or> c = 8233 \<or> c = 8239 \<or> c = 8287 \<or>
     c = 12288"

definition lstrip :: "pystr \<Rightarrow> pystr" where
  "lstrip s = dropWhile is_space s"

definition rstrip :: "pystr \<Rightarrow> pystr" where
  "rstrip s = rev (dropWhile is_space (rev s))"

definition strip :: "pystr \<Rightarrow> pystr" where
  "strip s = rstrip (lstrip s)"

definition startswith :: "pystr \<Rightarrow> pystr \<Rightarrow> bool" where
  "startswith s p \<longleftrightarrow> take (length p) s = p"

text \<open>\<^verbatim>\<open>sep.join(xs)\<close>.\<close>

fun join :: "pystr \<Rightarrow> pystr list \<Rightarrow> pystr" where
  "join sep [] = []"
| "join sep [x] = x"
| "join sep (x # y # ys) = x @ sep @ join sep (y # ys)"

text \<open>
  \<^verbatim>\<open>s.split()\<close>: the maximal runs of non-whitespace code points, in order. The
  first argument is the word read so far.
\<close>

fun split_acc :: "pystr \<Rightarrow> pystr \<Rightarrow> pystr list" where
  "split_acc w [] = (if w = [] then [] else [w])"
| "split_acc w (c # cs) =
     (if is_space c then (if w = [] then split_acc [] cs else w # split_acc [] cs)
      else split_acc (w @ [c]) cs)"

definition split_ws :: "pystr \<Rightarrow> pystr list" where
  "split_ws s = split_acc [] s"


text \<open>\<^verbatim>\<open>s.split("\n")\<close>: every line feed separates, empty pieces are kept.\<close>

fun split_nl_acc :: "pystr \<Rightarrow> pystr \<Rightarrow> pystr list" where
  "split_nl_acc w [] = [w]"
| "split_nl_acc w (c # cs) =
     (if c = 10 then w # split_nl_acc [] cs else split_nl_acc (w @ [c]) cs)"

definition split_nl :: "pystr \<Rightarrow> pystr list" where
  "split_nl s = split_nl_acc [] s"

text \<open>\<^verbatim>\<open>str(n)\<close> for an integer: decimal digits, with a minus sign when negative.\<close>

fun digits :: "nat \<Rightarrow> pystr" where
  "digits n = (if n < 10 then [48 + n] else digits (n div 10) @ [48 + n mod 10])"

declare digits.simps [simp del]

definition str_int :: "int \<Rightarrow> pystr" where
  "str_int i = (if i < 0 then 45 # digits (nat (- i)) else digits (nat i))"

section \<open>Weather adapter: wind direction\<close>

text \<open>
  A Python \<^verbatim>\<open>float\<close>. A finite float is a rational number; the arithmetic of
  \<open>_wind_dir_label\<close> is modelled exactly on that rational. (The float sum
  \<^verbatim>\<open>deg + 22.5\<close> is exact whenever \<^verbatim>\<open>deg\<close> is a multiple of \<open>2\<^sup>-\<^sup>4\<^sup>4\<close> in
  \<open>[0, 360)\<close>, which covers the whole-degree values of the forecast service; the
  rounding of other floats is not modelled.) On an infinity or a NaN the
  conversion \<^verbatim>\<open>int(...)\<close> raises and the \<^verbatim>\<open>except\<close> branch answers.
\<close>

datatype pyfloat = Finite rat | PosInf | NegInf | NaN

definition dirs :: "pystr list" where
  "dirs = [pstr ''N'', pstr ''NO'', pstr ''O'', pstr ''SO'', pstr ''S'', pstr ''SW'',
           pstr ''W'', pstr ''NW'']"

definition wind_idx :: "rat \<Rightarrow> int" where
  "wind_idx deg = \<lfloor>(deg + 45 / 2) / 45\<rfloor> mod 8"

definition wind_dir_label :: "pyfloat \<Rightarrow> pystr" where
  "wind_dir_label deg =
     (case deg of
        Finite d \<Rightarrow> dirs ! nat (wind_idx d)
      | _ \<Rightarrow> pstr ''?'')"

section \<open>Weather code and icon\<close>

text \<open>
  A value read from the forecast's JSON: \<^verbatim>\<open>None\<close>, a number, or any other value
  (on which a numeric conversion raises).
\<close>

datatype jval = JNull | JNum rat | JBad

text \<open>\<^verbatim>\<open>int(x)\<close> on a number truncates towards zero.\<close>

definition py_trunc :: "rat \<Rightarrow> int" where
  "py_trunc r = (if 0 \<le> r then \<lfloor>r\<rfloor> else \<lceil>r\<rceil>)"

definition weather_code_to_kind :: "jval \<Rightarrow> pystr" where
  "weather_code_to_kind code =
     (case code of
        JNull \<Rightarrow> pstr ''cloud''
      | JBad \<Rightarrow> pstr ''cloud''
      | JNum r \<Rightarrow>
          (let c = py_trunc r in
           if c = 0 then pstr ''sun''
           else if c \<in> set [1, 2, 3] then pstr ''cloud''
           else if c \<in> set [45, 48] then pstr ''fog''
           else if c \<in> set [51, 53, 55, 56, 57] then pstr ''drizzle''
           else if c \<in> set [61, 63, 65, 66, 67] then pstr ''rain''
           else if c \<in> set [71, 73, 75, 77] then pstr ''snow''
           else if c \<in> set [80, 81, 82] then pstr ''rain''
           else if c \<in> set [85, 86] then pstr ''snow''
           else if c \<in> set [95, 96, 99] then pstr ''storm''
           else pstr ''cloud''))"

text \<open>
  The icons of the weather card: \<open>IconCloud rain snow\<close> is the cloud glyph with
  the optional rain strokes or snow stars beneath it.
\<close>

datatype icon = IconSun | IconCloud bool bool | IconFog

definition pick_icon_for_weather :: "pystr \<Rightarrow> icon" where
  "pick_icon_for_weather kind =
     (if kind = pstr ''sun'' then IconSun
      else if kind \<in> set [pstr ''rain'', pstr ''drizzle'', pstr ''storm''] then IconCloud True False
      else if kind = pstr ''snow'' then IconCloud False True
      else if kind = pstr ''fog'' then IconFog
      else IconCloud False False)"

section \<open>Calendar adapter\<close>

text \<open>
  What \<^verbatim>\<open>subprocess.run\<close> does: it returns with the tool's standard output (any
  exit status: the call does not ask for a check), or it raises (tool missing,
  timeout, any other exception) and \<open>ProcError\<close> carries the exception's text.
\<close>

datatype proc_result = Completed pystr | ProcError pystr

definition keine_termine :: pystr where
  "keine_termine = pstr ''Keine Termine''"

definition is_event :: "pystr \<Rightarrow> bool" where
  "is_event l \<longleftrightarrow> \<not> startswith l (pstr ''Today,'') \<and> strip l \<noteq> []"

definition get_calendar :: "proc_result \<Rightarrow> pystr list" where
  "get_calendar result =
     (case result of
        Completed stdout \<Rightarrow>
          (let lines = (if stdout \<noteq> [] then split_nl (strip stdout) else []);
               events = filter is_event lines
           in if events \<noteq> [] then events else [keine_termine])
      | ProcError e \<Rightarrow> [pstr ''Fehler: '' @ e])"

section \<open>To-do adapter\<close>

text \<open>
  A file as an adapter finds it: absent, present but failing to open or decode,
  or read. For the to-do file the content is the list \<^verbatim>\<open>raw\<close> of its lines.
\<close>

datatype 'a source_file = Missing | Unreadable | Content 'a

definition keine_todos :: pystr where
  "keine_todos = pstr ''Keine To-dos f'' @ [252] @ pstr ''r heute''"

fun todo_tasks :: "pystr list \<Rightarrow> pystr list" where
  "todo_tasks [] = []"
| "todo_tasks (line # raw) =
     (let s = strip line in
      if s = [] then todo_tasks raw
      else if startswith s (pstr ''#'') then todo_tasks raw
      else if startswith s (pstr ''- ['') then s # todo_tasks raw
      else todo_tasks raw)"

text \<open>The slice \<^verbatim>\<open>xs[:n]\<close>; a negative \<open>n\<close> counts from the end.\<close>

definition py_take :: "int \<Rightarrow> 'a list \<Rightarrow> 'a list" where
  "py_take n xs = (if 0 \<le> n then take (nat n) xs else take (nat (int (length xs) + n)) xs)"

text \<open>The line \<^verbatim>\<open>"\<dots> (+N weitere)"\<close>; it starts with the ellipsis U+2026.\<close>

definition more_line :: "int \<Rightarrow> pystr" where
  "more_line n = [8230] @ pstr '' (+'' @ str_int n @ pstr '' weitere)''"

definition get_todos_lines :: "int \<Rightarrow> pystr list source_file \<Rightarrow> pystr list" where
  "get_todos_lines max_lines todo_file =
     (case todo_file of
        Missing \<Rightarrow> [keine_todos]
      | Unreadable \<Rightarrow> [keine_todos]
      | Content raw \<Rightarrow>
          (let tasks = todo_tasks raw in
           if tasks = [] then [keine_todos]
           else if int (length tasks) > max_lines
             then py_take max_lines tasks @ [more_line (int (length tasks) - max_lines)]
           else tasks))"

section \<open>Weather adapter: the forecast\<close>

text \<open>
  Number formatting. A JSON number is modelled by its exact value, and
  \<^verbatim>\<open>f"{x:.1f}"\<close> and \<^verbatim>\<open>f"{x:.0f}"\<close> print that value rounded to one and to no
  decimal, a tie going to the even digit. (A negative zero and the non-finite
  floats are not modelled.)
\<close>

definition round_half_even :: "rat \<Rightarrow> int" where
  "round_half_even r =
     (let f = \<lfloor>r\<rfloor>; d = r - of_int f in
      if d < 1 / 2 then f else if 1 / 2 < d then f + 1 else if even f then f else f + 1)"

definition fmt_1f :: "rat \<Rightarrow> pystr" where
  "fmt_1f r =
     (let n = nat (round_half_even (\<bar>r\<bar> * 10)) in
      (if r < 0 then [45] else []) @ digits (n div 10) @ [46] @ digits (n mod 10))"

definition fmt_0f :: "rat \<Rightarrow> pystr" where
  "fmt_0f r = (if r < 0 then [45] else []) @ digits (nat (round_half_even \<bar>r\<bar>))"

text \<open>
  The values one attempt reads from the response: the five entries of
  \<^verbatim>\<open>current\<close> and the first elements of the two daily lists, each \<open>JNull\<close>
  where the entry, the object or the list is absent or empty.
\<close>

record forecast =
  f_t :: jval
  f_hum :: jval
  f_ws :: jval
  f_wd :: jval
  f_wcode :: jval
  f_tmax :: jval
  f_tmin :: jval

text \<open>
  One attempt either raises before a response is decoded (network error,
  timeout, undecodable body) or obtains the values above.
\<close>

datatype fetch_result = FetchError | Fetched forecast

record weather =
  w_ok :: bool
  w_code :: jval
  w_lines :: "(pystr \<times> pystr) option list"

definition deg_c :: pystr where
  "deg_c = [176] @ pstr ''C''"

definition weather_unavailable :: weather where
  "weather_unavailable =
     \<lparr>w_ok = False, w_code = JNull,
      w_lines = [Some (pstr ''info'', pstr ''Wetterdaten nicht verf'' @ [252] @ pstr ''gbar'')]\<rparr>"

text \<open>
  The body of the \<^verbatim>\<open>try\<close>: \<open>None\<close> when it raises (the \<^verbatim>\<open>except\<close> branch
  then continues the loop), the returned snapshot otherwise. Besides the explicit
  \<^verbatim>\<open>ValueError("missing fields")\<close>, formatting or converting a value that is no
  number raises.
\<close>

definition humidity_line :: "jval \<Rightarrow> (pystr \<times> pystr) option option" where
  "humidity_line hum =
     (case hum of
        JNull \<Rightarrow> Some None
      | JNum h \<Rightarrow> Some (Some (pstr ''humidity'', str_int (py_trunc h) @ pstr ''% Luftfeuchte''))
      | JBad \<Rightarrow> None)"

definition wind_line :: "jval \<Rightarrow> jval \<Rightarrow> (pystr \<times> pystr) option option" where
  "wind_line ws wd =
     (case ws of
        JNull \<Rightarrow> Some None
      | JBad \<Rightarrow> None
      | JNum s \<Rightarrow>
          (case wd of
             JNull \<Rightarrow> Some (Some (pstr ''wind'', fmt_0f s @ pstr '' km/h''))
           | JBad \<Rightarrow> None
           | JNum d \<Rightarrow>
               Some (Some (pstr ''wind'',
                 wind_dir_label (Finite d) @ pstr '' '' @ fmt_0f s @ pstr '' km/h''))))"

definition weather_attempt :: "fetch_result \<Rightarrow> weather option" where
  "weather_attempt r =
     (case r of
        FetchError \<Rightarrow> None
      | Fetched f \<Rightarrow>
          if f_t f = JNull \<or> f_tmax f = JNull \<or> f_tmin f = JNull then None
          else
            (case (f_t f, f_tmin f, f_tmax f, humidity_line (f_hum f), wind_line (f_ws f) (f_wd f)) of
               (JNum t, JNum tmin, JNum tmax, Some hl, Some wl) \<Rightarrow>
                 Some \<lparr>w_ok = True, w_code = f_wcode f,
                       w_lines =
                         [Some (pstr ''temp'', fmt_1f t @ deg_c @ pstr '' aktuell''),
                          Some (pstr ''range'', fmt_1f tmin @ deg_c @ pstr '' / '' @ fmt_1f tmax @ deg_c),
                          hl, wl]\<rparr>
             | _ \<Rightarrow> None))"

text \<open>
  The loop \<^verbatim>\<open>for _ in range(3)\<close>. \<open>fetch i\<close> is what the \<open>i\<close>-th request of the
  run meets; the result carries the number of requests made.
\<close>

fun weather_loop :: "nat \<Rightarrow> nat \<Rightarrow> (nat \<Rightarrow> fetch_result) \<Rightarrow> weather \<times> nat" where
  "weather_loop 0 i fetch = (weather_unavailable, i)"
| "weather_loop (Suc n) i fetch =
     (case weather_attempt (fetch i) of
        Some w \<Rightarrow> (w, Suc i)
      | None \<Rightarrow> weather_loop n (Suc i) fetch)"

definition get_weather :: "(nat \<Rightarrow> fetch_result) \<Rightarrow> weather \<times> nat" where
  "get_weather fetch = weather_loop 3 0 fetch"

section \<open>Birthday adapter\<close>

text \<open>
  \<^verbatim>\<open>datetime.date\<close>: the proleptic Gregorian calendar with years 1 to 9999.
  Dates compare as the triples (year, month, day); the difference of two dates
  is the difference of their ordinals.
\<close>

datatype date = Date (d_year: int) (d_month: int) (d_day: int)

definition is_leap :: "int \<Rightarrow> bool" where
  "is_leap y \<longleftrightarrow> y mod 4 = 0 \<and> (y mod 100 \<noteq> 0 \<or> y mod 400 = 0)"

definition days_in_month :: "int \<Rightarrow> int \<Rightarrow> int" where
  "days_in_month y m =
     (if m = 2 \<and> is_leap y then 29
      else [31, 28, 31, 30, 31, 30, 31, 31, 30, 31, 30, 31] ! nat (m - 1))"

definition days_before_year :: "int \<Rightarrow> int" where
  "days_before_year y = (y - 1) * 365 + (y - 1) div 4 - (y - 1) div 100 + (y - 1) div 400"

definition days_before_month :: "int \<Rightarrow> int \<Rightarrow> int" where
  "days_before_month y m =
     [0, 31, 59, 90, 120, 151, 181, 212, 243, 273, 304, 334] ! nat (m - 1)
       + (if 2 < m \<and> is_leap y then 1 else 0)"

definition valid_date :: "date \<Rightarrow> bool" where
  "valid_date dt \<longleftrightarrow>
     1 \<le> d_year dt \<and> d_year dt \<le> 9999 \<and> 1 \<le> d_month dt \<and> d_month dt \<le> 12 \<and>
     1 \<le> d_day dt \<and> d_day dt \<le> days_in_month (d_year dt) (d_month dt)"

definition toordinal :: "date \<Rightarrow> int" where
  "toordinal dt =
     days_before_year (d_year dt) + days_before_month (d_year dt) (d_month dt) + d_day dt"

definition date_less :: "date \<Rightarrow> date \<Rightarrow> bool" where
  "date_less a b \<longleftrightarrow>
     d_year a < d_year b \<or>
     (d_year a = d_year b \<and>
       (d_month a < d_month b \<or> (d_month a = d_month b \<and> d_day a < d_day b)))"

text \<open>\<^verbatim>\<open>date.replace\<close>: \<open>None\<close> stands for the \<^verbatim>\<open>ValueError\<close> of an invalid date.\<close>

definition date_replace :: "int \<Rightarrow> int \<Rightarrow> int \<Rightarrow> date option" where
  "date_replace y m d = (if valid_date (Date y m d) then Some (Date y m d) else None)"

text \<open>
  One entry of the birthdays file; a field is \<open>None\<close> when the key is absent or
  null. The file is a JSON object, read in the order of its keys.
\<close>

record birthday =
  b_day :: "int option"
  b_month :: "int option"
  b_year :: "int option"

text \<open>
  The birthdays file as \<^verbatim>\<open>open\<close> and \<^verbatim>\<open>json.load\<close> find it: absent
  (\<^verbatim>\<open>FileNotFoundError\<close>), no JSON (\<^verbatim>\<open>JSONDecodeError\<close>), failing in another way
  (an exception the adapter does not catch), or loaded.
\<close>

datatype 'a json_file = NoFile | BadJson | OtherFailure | Json 'a

text \<open>
  The occurrence the loop body settles on: this year's date, or next year's when
  this year's lies before today; \<open>None\<close> where a \<^verbatim>\<open>replace\<close> raises and the entry
  is skipped.
\<close>

definition next_occurrence :: "date \<Rightarrow> int \<Rightarrow> int \<Rightarrow> date option" where
  "next_occurrence today m d =
     (case date_replace (d_year today) m d of
        None \<Rightarrow> None
      | Some birthday_this_year \<Rightarrow>
          if date_less birthday_this_year today
          then date_replace (d_year today + 1) (d_month birthday_this_year) (d_day birthday_this_year)
          else Some birthday_this_year)"

text \<open>The loop body: the triple appended to \<^verbatim>\<open>upcoming\<close>, or \<open>None\<close> when nothing is.\<close>

definition birthday_item ::
  "date \<Rightarrow> int \<Rightarrow> pystr \<times> birthday \<Rightarrow> (int \<times> pystr \<times> int option) option" where
  "birthday_item today days entry =
     (case entry of (name, data) \<Rightarrow>
        (case (b_day data, b_month data) of
           (Some d, Some m) \<Rightarrow>
             if d = 0 \<or> m = 0 then None
             else
               (case next_occurrence today m d of
                  None \<Rightarrow> None
                | Some bday \<Rightarrow>
                    (let days_until = toordinal bday - toordinal today in
                     if days_until \<le> days
                     then Some (days_until, name,
                            (case b_year data of
                               None \<Rightarrow> None
                             | Some year_born \<Rightarrow>
                                 if year_born = 0 then None else Some (d_year bday - year_born)))
                     else None))
         | _ \<Rightarrow> None))"

fun upcoming_birthdays ::
  "date \<Rightarrow> int \<Rightarrow> (pystr \<times> birthday) list \<Rightarrow> (int \<times> pystr \<times> int option) list" where
  "upcoming_birthdays today days [] = []"
| "upcoming_birthdays today days (entry # entries) =
     (case birthday_item today days entry of
        None \<Rightarrow> upcoming_birthdays today days entries
      | Some item \<Rightarrow> item # upcoming_birthdays today days entries)"

definition format_birthday :: "int \<times> pystr \<times> int option \<Rightarrow> pystr" where
  "format_birthday item =
     (case item of (days_until, name, age) \<Rightarrow>
        (let age_str = (case age of
                          None \<Rightarrow> []
                        | Some a \<Rightarrow> if a = 0 then [] else pstr '' ('' @ str_int a @ pstr '')'');
             prefix = (if days_until = 0 then pstr ''Heute''
                       else if days_until = 1 then pstr ''Morgen''
                       else pstr ''in '' @ str_int days_until @ pstr '' Tagen'')
         in prefix @ pstr '': '' @ name @ age_str))"

text \<open>
  The adapter; \<open>None\<close> is an exception that leaves it. \<^verbatim>\<open>list.sort\<close> is stable,
  as \<open>sort_key\<close> is.
\<close>

definition get_upcoming_birthdays ::
  "int \<Rightarrow> date \<Rightarrow> (pystr \<times> birthday) list json_file \<Rightarrow> pystr list option" where
  "get_upcoming_birthdays days today birthdays_file =
     (case birthdays_file of
        NoFile \<Rightarrow> Some []
      | BadJson \<Rightarrow> Some []
      | OtherFailure \<Rightarrow> None
      | Json birthdays \<Rightarrow>
          Some (map format_birthday (sort_key fst (upcoming_birthdays today days birthdays))))"

section \<open>Main\<close>

text \<open>
  The delivery calls. Each loads the bot token, which raises when none is found,
  and sends a request that returns the \<^verbatim>\<open>ok\<close> flag of the reply or raises.
  \<open>send_telegram_message\<close> catches everything; \<open>send_telegram_photo\<close> loads the
  token before its \<^verbatim>\<open>try\<close>, so a missing token leaves it as an exception
  (\<open>None\<close>).
\<close>

definition send_telegram_message :: "bool \<Rightarrow> bool option \<Rightarrow> bool" where
  "send_telegram_message token_found api =
     (if \<not> token_found then False
      else (case api of Some ok \<Rightarrow> ok | None \<Rightarrow> False))"

definition send_telegram_photo :: "bool \<Rightarrow> bool option \<Rightarrow> bool option" where
  "send_telegram_photo token_found api =
     (if \<not> token_found then None
      else (case api of Some ok \<Rightarrow> Some ok | None \<Rightarrow> Some False))"

text \<open>
  What one run meets: the outcome of the birthday adapter (the only adapter an
  exception can leave), whether rendering returns an image, whether the token
  is found, and the replies of the two API requests.
\<close>

record run =
  r_birthdays :: "pystr list option"
  r_render_ok :: bool
  r_token_found :: bool
  r_photo_api :: "bool option"
  r_text_api :: "bool option"

datatype delivery = SendPhoto | SendText

text \<open>
  \<open>main\<close> returns the deliveries it attempted, in order, and its return value;
  \<open>None\<close> is an exception that leaves \<open>main\<close>.
\<close>

definition text_fallback :: "run \<Rightarrow> delivery list \<Rightarrow> delivery list \<times> int option" where
  "text_fallback r sent =
     (if send_telegram_message (r_token_found r) (r_text_api r) then (sent @ [SendText], Some 0)
      else (sent @ [SendText], Some 1))"

definition main :: "run \<Rightarrow> delivery list \<times> int option" where
  "main r =
     (case r_birthdays r of
        None \<Rightarrow> ([], None)
      | Some birthdays \<Rightarrow>
          if \<not> r_render_ok r then text_fallback r []
          else
            (case send_telegram_photo (r_token_found r) (r_photo_api r) of
               Some ok_img \<Rightarrow> if ok_img then ([SendPhoto], Some 0) else text_fallback r [SendPhoto]
             | None \<Rightarrow> text_fallback r [SendPhoto]))"

section \<open>Text wrapping\<close>

text \<open>
  \<open>_wrap\<close>. The drawing context and the font enter only through the measured
  width of a text, \<^verbatim>\<open>draw.textbbox((0, 0), trial, font=font)[2]\<close>; the model takes
  this measurement as the function \<open>tw\<close>. The loop state is the list of finished
  lines and the list \<open>cur\<close> of the words of the current line.
\<close>

fun wrap_loop ::
  "(pystr \<Rightarrow> int) \<Rightarrow> int \<Rightarrow> pystr list \<Rightarrow> pystr list \<Rightarrow> pystr list \<Rightarrow> pystr list" where
  "wrap_loop tw max_width [] lines cur =
     (if cur \<noteq> [] then lines @ [join [32] cur] else lines)"
| "wrap_loop tw max_width (w # words) lines cur =
     (let trial = strip (join [32] (cur @ [w])) in
      if tw trial \<le> max_width \<or> cur = [] then wrap_loop tw max_width words lines (cur @ [w])
      else wrap_loop tw max_width words (lines @ [join [32] cur]) [w])"

definition wrap :: "(pystr \<Rightarrow> int) \<Rightarrow> pystr \<Rightarrow> int \<Rightarrow> pystr list" where
  "wrap tw text max_width = wrap_loop tw max_width (split_ws text) [] []"

section \<open>Card layout\<close>


















section \<open>Notions for the proofs about wrapping\<close>

text \<open>A word as \<^verbatim>\<open>split\<close> yields it: not empty and free of whitespace.\<close>

definition good_word :: "pystr \<Rightarrow> bool" where
  "good_word w \<longleftrightarrow> w \<noteq> [] \<and> (\<forall>c\<in>set w. \<not> is_space c)"

text \<open>
  A list of words the greedy rule puts on one line: every beginning of it with
  two or more words measures at most the maximal width.
\<close>

definition accepted :: "(pystr \<Rightarrow> int) \<Rightarrow> int \<Rightarrow> pystr list \<Rightarrow> bool" where
  "accepted tw max_width ws \<longleftrightarrow>
     (\<forall>k. 2 \<le> k \<and> k \<le> length ws \<longrightarrow> tw (join [32] (take k ws)) \<le> max_width)"

definition wrapped_line :: "(pystr \<Rightarrow> int) \<Rightarrow> int \<Rightarrow> pystr \<Rightarrow> bool" where
  "wrapped_line tw mw l \<longleftrightarrow>
     (\<exists>g. g \<noteq> [] \<and> (\<forall>w\<in>set g. good_word w) \<and> accepted tw mw g \<and> l = join [32] g)"

section \<open>Notions for the proofs about the card layout\<close>


section \<open>Verification\<close>

subsection \<open>Wind direction\<close>




subsection \<open>Weather code\<close>

text \<open>
  Claim C5. The mapping from a weather code to the icon drawn is total over the
  integers and null and follows the table: 0 is the sun; 1, 2, 3 the plain
  cloud; 45, 48 fog; 51, 53, 55, 56, 57 drizzle, drawn as the rain cloud; 61, 63,
  65, 66, 67, 80, 81, 82 rain, the rain cloud; 71, 73, 75, 77, 85, 86 snow, the
  snow cloud; 95, 96, 99 storm, drawn as the rain cloud; every other integer and
  null the plain cloud.
\<close>

theorem weather_code_icon_table:
  "weather_code_to_kind (JNum (of_int c)) =
     (if c = 0 then pstr ''sun''
      else if c \<in> {1, 2, 3} then pstr ''cloud''
      else if c \<in> {45, 48} then pstr ''fog''
      else if c \<in> {51, 53, 55, 56, 57} then pstr ''drizzle''
      else if c \<in> {61, 63, 65, 66, 67, 80, 81, 82} then pstr ''rain''
      else if c \<in> {71, 73, 75, 77, 85, 86} then pstr ''snow''
      else if c \<in> {95, 96, 99} then pstr ''storm''
      else pstr ''cloud'')
   \<and> pick_icon_for_weather (weather_code_to_kind (JNum (of_int c))) =
     (if c = 0 then IconSun
      else if c \<in> {1, 2, 3} then IconCloud False False
      else if c \<in> {45, 48} then IconFog
      else if c \<in> {51, 53, 55, 56, 57} then IconCloud True False
      else if c \<in> {61, 63, 65, 66, 67, 80, 81, 82} then IconCloud True False
      else if c \<in> {71, 73, 75, 77, 85, 86} then IconCloud False True
      else if c \<in> {95, 96, 99} then IconCloud True False
      else IconCloud False False)
   \<and> weather_code_to_kind JNull = pstr ''cloud''
   \<and> pick_icon_for_weather (weather_code_to_kind JNull) = IconCloud False False"
  by (simp add: weather_code_to_kind_def pick_icon_for_weather_def py_trunc_def pstr_def)

subsection \<open>String evaluation\<close>

lemmas str_eval = pstr_def strip_def lstrip_def rstrip_def is_space_def startswith_def

lemma startswith_Cons: "startswith s (c # p) \<longleftrightarrow> (\<exists>t. s = c # t \<and> startswith t p)"
  by (cases s) (auto simp: startswith_def)

subsection \<open>Calendar adapter\<close>

text \<open>
  Claim C1 as stated fails on a process error: when the calendar tool is missing,
  \<^verbatim>\<open>subprocess.run\<close> raises, and the adapter answers with the one line
  \<^verbatim>\<open>Fehler: [Errno 2] No such file or directory: 'khal'\<close>, not with the
  placeholder \<^verbatim>\<open>Keine Termine\<close>.
\<close>

theorem get_calendar_error_counterexample:
  "get_calendar (ProcError (pstr ''[Errno 2] No such file or directory: '' @ [39] @ pstr ''khal'' @ [39]))
     = [pstr ''Fehler: [Errno 2] No such file or directory: '' @ [39] @ pstr ''khal'' @ [39]]
   \<and> get_calendar (ProcError (pstr ''[Errno 2] No such file or directory: '' @ [39] @ pstr ''khal'' @ [39]))
     \<noteq> [pstr ''Keine Termine'']"
  by (simp add: get_calendar_def pstr_def)

text \<open>
  Claim C1, amended. Every line the calendar adapter returns from a completed
  run is neither the header line (it does not start with \<^verbatim>\<open>Today,\<close>) nor blank;
  the result is the list of the output's lines that pass this filter, or, when
  none does, exactly the one-element placeholder list \<^verbatim>\<open>Keine Termine\<close>. When
  the process call raises (tool missing, timeout, any exception), the adapter
  returns the one-element list \<^verbatim>\<open>Fehler: \<close> followed by the exception's text. No
  error is propagated, and the result is never empty.
\<close>

theorem get_calendar_result:
  "(\<forall>l \<in> set (get_calendar (Completed stdout)).
       \<not> startswith l (pstr ''Today,'') \<and> strip l \<noteq> [])
   \<and> (filter is_event (split_nl (strip stdout)) = [] \<longrightarrow>
        get_calendar (Completed stdout) = [pstr ''Keine Termine''])
   \<and> (filter is_event (split_nl (strip stdout)) \<noteq> [] \<longrightarrow>
        get_calendar (Completed stdout) = filter is_event (split_nl (strip stdout)))
   \<and> get_calendar (ProcError e) = [pstr ''Fehler: '' @ e]
   \<and> get_calendar result \<noteq> []"
proof -
  have kt: "is_event keine_termine"
    by (simp add: is_event_def keine_termine_def str_eval)
  have e0: "filter is_event (split_nl (strip [])) = []"
    by (simp add: split_nl_def is_event_def str_eval)
  have a: "\<forall>l \<in> set (get_calendar (Completed stdout)).
      \<not> startswith l (pstr ''Today,'') \<and> strip l \<noteq> []"
    using kt by (auto simp: get_calendar_def Let_def is_event_def)
  have c: "filter is_event (split_nl (strip stdout)) = [] \<longrightarrow>
        get_calendar (Completed stdout) = [pstr ''Keine Termine'']"
    by (simp add: get_calendar_def keine_termine_def)
  have d: "filter is_event (split_nl (strip stdout)) \<noteq> [] \<longrightarrow>
        get_calendar (Completed stdout) = filter is_event (split_nl (strip stdout))"
    using e0 by (auto simp: get_calendar_def Let_def)
  have f: "get_calendar (ProcError e) = [pstr ''Fehler: '' @ e]"
    by (simp add: get_calendar_def)
  have g: "get_calendar result \<noteq> []"
    by (cases result) (simp_all add: get_calendar_def Let_def)
  from a c d f g show ?thesis
    by blast
qed

theorem get_calendar_result_witness:
  "get_calendar (Completed (pstr ''Today, 10.06.2024'' @ [10] @ pstr ''09:30 Standup'' @ [10]
      @ pstr ''  '' @ [10])) = [pstr ''09:30 Standup'']
   \<and> \<not> startswith (pstr ''09:30 Standup'') (pstr ''Today,'')
   \<and> strip (pstr ''09:30 Standup'') \<noteq> []
   \<and> get_calendar (Completed (pstr ''Today, 10.06.2024'' @ [10])) = [pstr ''Keine Termine'']"
proof -
  let ?o1 = "pstr ''Today, 10.06.2024'' @ [10] @ pstr ''09:30 Standup'' @ [10] @ pstr ''  '' @ [10]"
  let ?o2 = "pstr ''Today, 10.06.2024'' @ [10]"
  have f1: "filter is_event (split_nl (strip ?o1)) = [pstr ''09:30 Standup'']"
    by (simp add: split_nl_def is_event_def str_eval)
  have f2: "filter is_event (split_nl (strip ?o2)) = []"
    by (simp add: split_nl_def is_event_def str_eval)
  have n1: "filter is_event (split_nl (strip ?o1)) \<noteq> []"
    unfolding f1 by simp
  from get_calendar_result [of ?o1] n1
  have "get_calendar (Completed ?o1) = filter is_event (split_nl (strip ?o1))"
    by blast
  then have c1: "get_calendar (Completed ?o1) = [pstr ''09:30 Standup'']"
    unfolding f1 .
  from get_calendar_result [of ?o1]
  have "\<forall>l \<in> set (get_calendar (Completed ?o1)).
      \<not> startswith l (pstr ''Today,'') \<and> strip l \<noteq> []"
    by blast
  then have c3: "\<not> startswith (pstr ''09:30 Standup'') (pstr ''Today,'')"
    "strip (pstr ''09:30 Standup'') \<noteq> []"
    unfolding c1 by simp_all
  from get_calendar_result [of ?o2] f2
  have c2: "get_calendar (Completed ?o2) = [pstr ''Keine Termine'']"
    by blast
  from c1 c2 c3 show ?thesis
    by blast
qed

subsection \<open>To-do adapter\<close>

lemma todo_tasks_filter:
  "todo_tasks raw = filter (\<lambda>s. startswith s (pstr ''- ['')) (map strip raw)"
  by (induction raw) (auto simp: Let_def pstr_def startswith_Cons)

text \<open>
  Claim C7. The to-do adapter keeps exactly the trimmed lines that start with
  the checkbox marker \<^verbatim>\<open>- [\<close>, in order; headings, blank lines and prose are
  dropped, so the five lines of the example yield the two tasks. With a maximum
  \<open>m\<close> (6 by default) and more than \<open>m\<close> tasks, the result is the first \<open>m\<close>
  tasks followed by the single line \<^verbatim>\<open>\<dots> (+N weitere)\<close>, \<open>N\<close> the number of tasks
  left out; with at most \<open>m\<close> tasks it is the tasks themselves. When the file is
  missing, unreadable, or holds no task, the result is the one-element
  placeholder \<^verbatim>\<open>Keine To-dos f\<dots>r heute\<close>.
\<close>

theorem get_todos_lines_spec:
  "todo_tasks raw = filter (\<lambda>s. startswith s (pstr ''- ['')) (map strip raw)
   \<and> get_todos_lines 6 (Content [pstr ''# Heading'', [], pstr ''- [ ] task1'',
         pstr ''- [x] task2'', pstr ''note text'']) = [pstr ''- [ ] task1'', pstr ''- [x] task2'']
   \<and> (0 \<le> m \<and> m < int (length (todo_tasks raw)) \<longrightarrow>
        get_todos_lines m (Content raw) =
          take (nat m) (todo_tasks raw) @
          [[8230] @ pstr '' (+'' @ str_int (int (length (todo_tasks raw)) - m) @ pstr '' weitere)''])
   \<and> (todo_tasks raw \<noteq> [] \<and> int (length (todo_tasks raw)) \<le> m \<longrightarrow>
        get_todos_lines m (Content raw) = todo_tasks raw)
   \<and> (todo_tasks raw = [] \<longrightarrow> get_todos_lines m (Content raw) = [keine_todos])
   \<and> get_todos_lines m Missing = [keine_todos]
   \<and> get_todos_lines m Unreadable = [keine_todos]
   \<and> keine_todos = pstr ''Keine To-dos f'' @ [252] @ pstr ''r heute''"
proof -
  have a: "get_todos_lines 6 (Content [pstr ''# Heading'', [], pstr ''- [ ] task1'',
         pstr ''- [x] task2'', pstr ''note text'']) = [pstr ''- [ ] task1'', pstr ''- [x] task2'']"
    by (simp add: get_todos_lines_def str_eval)
  have b: "0 \<le> m \<and> m < int (length (todo_tasks raw)) \<longrightarrow>
        get_todos_lines m (Content raw) =
          take (nat m) (todo_tasks raw) @
          [[8230] @ pstr '' (+'' @ str_int (int (length (todo_tasks raw)) - m) @ pstr '' weitere)'']"
    by (auto simp: get_todos_lines_def py_take_def more_line_def Let_def)
  have c: "todo_tasks raw \<noteq> [] \<and> int (length (todo_tasks raw)) \<le> m \<longrightarrow>
        get_todos_lines m (Content raw) = todo_tasks raw"
    by (auto simp: get_todos_lines_def Let_def)
  have d: "todo_tasks raw = [] \<longrightarrow> get_todos_lines m (Content raw) = [keine_todos]"
    by (simp add: get_todos_lines_def)
  have e: "get_todos_lines m Missing = [keine_todos]"
    "get_todos_lines m Unreadable = [keine_todos]"
    by (simp_all add: get_todos_lines_def)
  from todo_tasks_filter a b c d e keine_todos_def show ?thesis
    by blast
qed

theorem get_todos_lines_spec_witness:
  "get_todos_lines 6 (Content [pstr ''- [ ] a'', pstr '' - [x] b'', pstr ''- [ ] c'', pstr ''## H'',
      pstr ''- [ ] d'', pstr ''- [ ] e'', pstr ''- [ ] f'', pstr ''text'', pstr ''- [ ] g'',
      pstr ''- [ ] h'']) =
     [pstr ''- [ ] a'', pstr ''- [x] b'', pstr ''- [ ] c'', pstr ''- [ ] d'', pstr ''- [ ] e'',
      pstr ''- [ ] f'', [8230] @ pstr '' (+2 weitere)'']
   \<and> get_todos_lines 6 (Content [pstr ''- [ ] a'', pstr ''b'']) = [pstr ''- [ ] a'']
   \<and> get_todos_lines 6 (Content [pstr ''# a'', pstr ''b'']) = [keine_todos]"
proof -
  let ?r1 = "[pstr ''- [ ] a'', pstr '' - [x] b'', pstr ''- [ ] c'', pstr ''## H'',
      pstr ''- [ ] d'', pstr ''- [ ] e'', pstr ''- [ ] f'', pstr ''text'', pstr ''- [ ] g'',
      pstr ''- [ ] h'']"
  have t1: "todo_tasks ?r1 = [pstr ''- [ ] a'', pstr ''- [x] b'', pstr ''- [ ] c'',
      pstr ''- [ ] d'', pstr ''- [ ] e'', pstr ''- [ ] f'', pstr ''- [ ] g'', pstr ''- [ ] h'']"
    by (simp add: str_eval)
  have h1: "(0::int) \<le> 6 \<and> 6 < int (length (todo_tasks ?r1))"
    unfolding t1 by simp
  have s2: "str_int 2 = pstr ''2''"
    by (simp add: str_int_def digits.simps pstr_def)
  from get_todos_lines_spec [of ?r1 6] h1
  have r1: "get_todos_lines 6 (Content ?r1) = take (nat 6) (todo_tasks ?r1) @
      [[8230] @ pstr '' (+'' @ str_int (int (length (todo_tasks ?r1)) - 6) @ pstr '' weitere)'']"
    by blast
  have c1: "get_todos_lines 6 (Content ?r1) =
     [pstr ''- [ ] a'', pstr ''- [x] b'', pstr ''- [ ] c'', pstr ''- [ ] d'', pstr ''- [ ] e'',
      pstr ''- [ ] f'', [8230] @ pstr '' (+2 weitere)'']"
    unfolding r1 t1 by (simp add: s2) (simp add: pstr_def)
  let ?r2 = "[pstr ''- [ ] a'', pstr ''b'']"
  have t2: "todo_tasks ?r2 = [pstr ''- [ ] a'']"
    by (simp add: str_eval)
  have h2: "todo_tasks ?r2 \<noteq> [] \<and> int (length (todo_tasks ?r2)) \<le> 6"
    unfolding t2 by simp
  from get_todos_lines_spec [of ?r2 6] h2
  have c2: "get_todos_lines 6 (Content ?r2) = [pstr ''- [ ] a'']"
    unfolding t2 by blast
  let ?r3 = "[pstr ''# a'', pstr ''b'']"
  have t3: "todo_tasks ?r3 = []"
    by (simp add: str_eval)
  from get_todos_lines_spec [of ?r3 6] t3
  have c3: "get_todos_lines 6 (Content ?r3) = [keine_todos]"
    by blast
  from c1 c2 c3 show ?thesis
    by blast
qed

subsection \<open>Weather adapter: retries\<close>

lemma weather_loop_count: "snd (weather_loop n i fetch) \<le> i + n"
  by (induction n i fetch rule: weather_loop.induct) (auto split: option.splits)

lemma weather_loop_fail:
  "(\<forall>k<n. weather_attempt (fetch (i + k)) = None) \<Longrightarrow>
     weather_loop n i fetch = (weather_unavailable, i + n)"
proof (induction n arbitrary: i)
  case 0
  then show ?case by simp
next
  case (Suc n)
  from Suc.prems have "weather_attempt (fetch i) = None"
    by force
  moreover from Suc.prems have "\<forall>k<n. weather_attempt (fetch (Suc i + k)) = None"
    by force
  ultimately show ?case
    using Suc.IH [of "Suc i"] by simp
qed

lemma weather_loop_success:
  "j < n \<Longrightarrow> (\<forall>k<j. weather_attempt (fetch (i + k)) = None) \<Longrightarrow>
     weather_attempt (fetch (i + j)) = Some w \<Longrightarrow> weather_loop n i fetch = (w, i + j + 1)"
proof (induction n arbitrary: i j)
  case 0
  then show ?case by simp
next
  case (Suc n)
  show ?case
  proof (cases j)
    case 0
    with Suc.prems show ?thesis by simp
  next
    case (Suc j')
    from Suc.prems Suc have a: "weather_attempt (fetch i) = None"
      by force
    from Suc.prems Suc have b: "\<forall>k<j'. weather_attempt (fetch (Suc i + k)) = None"
      by force
    from Suc.prems Suc have c: "weather_attempt (fetch (Suc i + j')) = Some w"
      by simp
    from Suc.prems Suc have d: "j' < n"
      by simp
    from Suc.IH [OF d b c] a Suc show ?thesis
      by simp
  qed
qed

lemma weather_attempt_ok: "weather_attempt r = Some w \<Longrightarrow> w_ok w"
  by (auto simp: weather_attempt_def
      split: fetch_result.splits if_splits jval.splits option.splits prod.splits)

text \<open>
  Claim C4. The weather adapter makes at most 3 requests. If every attempt
  fails (the request raises, or one of the current temperature and the day's
  maximum and minimum is missing), it returns after the third request exactly
  the failure snapshot: not ok, no weather code, and the single info line
  \<^verbatim>\<open>Wetterdaten nicht verf\<dots>gbar\<close>. If attempt \<open>j\<close> is the first that succeeds, it
  returns that attempt's snapshot, which is ok, after \<open>j + 1\<close> requests: it does
  not retry further.
\<close>

theorem get_weather_retries:
  "snd (get_weather fetch) \<le> 3
   \<and> ((\<forall>k<3. weather_attempt (fetch k) = None) \<longrightarrow>
        get_weather fetch = (weather_unavailable, 3))
   \<and> (j < 3 \<and> (\<forall>k<j. weather_attempt (fetch k) = None) \<and> weather_attempt (fetch j) = Some w \<longrightarrow>
        get_weather fetch = (w, j + 1) \<and> w_ok w)
   \<and> weather_attempt FetchError = None
   \<and> (f_t f = JNull \<or> f_tmax f = JNull \<or> f_tmin f = JNull \<longrightarrow>
        weather_attempt (Fetched f) = None)
   \<and> weather_unavailable =
        \<lparr>w_ok = False, w_code = JNull,
         w_lines = [Some (pstr ''info'', pstr ''Wetterdaten nicht verf'' @ [252] @ pstr ''gbar'')]\<rparr>"
proof -
  have a: "snd (get_weather fetch) \<le> 3"
    using weather_loop_count [of 3 0 fetch] by (simp add: get_weather_def)
  have b: "(\<forall>k<3. weather_attempt (fetch k) = None) \<longrightarrow>
        get_weather fetch = (weather_unavailable, 3)"
    using weather_loop_fail [of 3 fetch 0] by (simp add: get_weather_def)
  have c: "j < 3 \<and> (\<forall>k<j. weather_attempt (fetch k) = None) \<and> weather_attempt (fetch j) = Some w \<longrightarrow>
        get_weather fetch = (w, j + 1) \<and> w_ok w"
    using weather_loop_success [of j 3 fetch 0 w] weather_attempt_ok [of "fetch j" w]
    by (simp add: get_weather_def)
  have d: "weather_attempt FetchError = None"
    by (simp add: weather_attempt_def)
  have e: "f_t f = JNull \<or> f_tmax f = JNull \<or> f_tmin f = JNull \<longrightarrow>
        weather_attempt (Fetched f) = None"
    by (simp add: weather_attempt_def)
  from a b c d e weather_unavailable_def show ?thesis
    by blast
qed

theorem get_weather_retries_witness:
  "get_weather (\<lambda>i. FetchError) = (weather_unavailable, 3)
   \<and> get_weather (\<lambda>i. if i = 1
        then Fetched \<lparr>f_t = JNum (43 / 2), f_hum = JNum 64, f_ws = JNum (25 / 2), f_wd = JNum 270,
               f_wcode = JNum 3, f_tmax = JNum (249 / 10), f_tmin = JNum (123 / 10)\<rparr>
        else Fetched \<lparr>f_t = JNum (43 / 2), f_hum = JNum 64, f_ws = JNum (25 / 2), f_wd = JNum 270,
               f_wcode = JNum 3, f_tmax = JNull, f_tmin = JNum (123 / 10)\<rparr>)
     = (\<lparr>w_ok = True, w_code = JNum 3,
         w_lines = [Some (pstr ''temp'', pstr ''21.5'' @ [176] @ pstr ''C aktuell''),
           Some (pstr ''range'', pstr ''12.3'' @ [176] @ pstr ''C / 24.9'' @ [176] @ pstr ''C''),
           Some (pstr ''humidity'', pstr ''64% Luftfeuchte''),
           Some (pstr ''wind'', pstr ''W 12 km/h'')]\<rparr>, 2)"
proof -
  let ?good = "\<lparr>f_t = JNum (43 / 2), f_hum = JNum 64, f_ws = JNum (25 / 2), f_wd = JNum 270,
               f_wcode = JNum 3, f_tmax = JNum (249 / 10), f_tmin = JNum (123 / 10)\<rparr>"
  let ?bad = "\<lparr>f_t = JNum (43 / 2), f_hum = JNum 64, f_ws = JNum (25 / 2), f_wd = JNum 270,
               f_wcode = JNum 3, f_tmax = JNull, f_tmin = JNum (123 / 10)\<rparr>"
  let ?w = "\<lparr>w_ok = True, w_code = JNum 3,
         w_lines = [Some (pstr ''temp'', pstr ''21.5'' @ [176] @ pstr ''C aktuell''),
           Some (pstr ''range'', pstr ''12.3'' @ [176] @ pstr ''C / 24.9'' @ [176] @ pstr ''C''),
           Some (pstr ''humidity'', pstr ''64% Luftfeuchte''),
           Some (pstr ''wind'', pstr ''W 12 km/h'')]\<rparr>"
  let ?f1 = "\<lambda>i::nat. FetchError"
  let ?f2 = "\<lambda>i::nat. if i = 1 then Fetched ?good else Fetched ?bad"
  have g: "weather_attempt (Fetched ?good) = Some ?w"
    by code_simp
  have b: "weather_attempt (Fetched ?bad) = None"
    by (simp add: weather_attempt_def)
  have h1: "\<forall>k<3. weather_attempt (?f1 k) = None"
    by (simp add: weather_attempt_def)
  from get_weather_retries [of ?f1] h1
  have c1: "get_weather ?f1 = (weather_unavailable, 3)"
    by blast
  have h2: "(1::nat) < 3 \<and> (\<forall>k<1. weather_attempt (?f2 k) = None) \<and> weather_attempt (?f2 1) = Some ?w"
    using g b by simp
  from get_weather_retries [of ?f2 1 ?w] h2
  have c2: "get_weather ?f2 = (?w, 1 + 1)"
    by blast
  from c1 c2 show ?thesis
    by simp
qed

subsection \<open>Main\<close>

text \<open>
  Claim C9. \<open>main\<close> returns 0 exactly when a delivery succeeds. When the image
  renders and its delivery succeeds, \<open>main\<close> returns 0 and sends no text. When
  rendering raises, or the image delivery fails or raises, \<open>main\<close> goes on to
  the text path, without a second image attempt, and returns 0 when the text
  delivery succeeds and 1 when it fails; it returns 1 in no other case. (When
  the birthday adapter raises, nothing is delivered and no value is returned.)
\<close>

theorem main_exit_code:
  "(snd (main r) = Some 0 \<longleftrightarrow>
      r_birthdays r \<noteq> None \<and>
      ((r_render_ok r \<and> send_telegram_photo (r_token_found r) (r_photo_api r) = Some True)
       \<or> send_telegram_message (r_token_found r) (r_text_api r)))
   \<and> (r_birthdays r \<noteq> None \<and> r_render_ok r \<and>
       send_telegram_photo (r_token_found r) (r_photo_api r) = Some True \<longrightarrow>
         main r = ([SendPhoto], Some 0))
   \<and> (r_birthdays r \<noteq> None \<and> \<not> r_render_ok r \<longrightarrow>
         main r = ([SendText],
           Some (if send_telegram_message (r_token_found r) (r_text_api r) then 0 else 1)))
   \<and> (r_birthdays r \<noteq> None \<and> r_render_ok r \<and>
       send_telegram_photo (r_token_found r) (r_photo_api r) \<noteq> Some True \<longrightarrow>
         main r = ([SendPhoto, SendText],
           Some (if send_telegram_message (r_token_found r) (r_text_api r) then 0 else 1)))
   \<and> (snd (main r) = Some 1 \<longleftrightarrow>
         r_birthdays r \<noteq> None \<and>
         \<not> (r_render_ok r \<and> send_telegram_photo (r_token_found r) (r_photo_api r) = Some True) \<and>
         \<not> send_telegram_message (r_token_found r) (r_text_api r))
   \<and> (r_birthdays r = None \<longrightarrow> main r = ([], None))"
  by (auto simp: main_def text_fallback_def split: option.splits)

theorem main_exit_code_witness:
  "main \<lparr>r_birthdays = Some [], r_render_ok = True, r_token_found = True,
          r_photo_api = Some True, r_text_api = Some True\<rparr> = ([SendPhoto], Some 0)
   \<and> main \<lparr>r_birthdays = Some [], r_render_ok = False, r_token_found = True,
          r_photo_api = Some True, r_text_api = Some True\<rparr> = ([SendText], Some 0)
   \<and> main \<lparr>r_birthdays = Some [], r_render_ok = True, r_token_found = True,
          r_photo_api = None, r_text_api = Some False\<rparr> = ([SendPhoto, SendText], Some 1)
   \<and> main \<lparr>r_birthdays = None, r_render_ok = True, r_token_found = True,
          r_photo_api = Some True, r_text_api = Some True\<rparr> = ([], None)"
proof -
  let ?r1 = "\<lparr>r_birthdays = Some [], r_render_ok = True, r_token_found = True,
          r_photo_api = Some True, r_text_api = Some True\<rparr>"
  let ?r2 = "\<lparr>r_birthdays = Some [], r_render_ok = False, r_token_found = True,
          r_photo_api = Some True, r_text_api = Some True\<rparr>"
  let ?r3 = "\<lparr>r_birthdays = Some [], r_render_ok = True, r_token_found = True,
          r_photo_api = None, r_text_api = Some False\<rparr>"
  let ?r4 = "\<lparr>r_birthdays = None, r_render_ok = True, r_token_found = True,
          r_photo_api = Some True, r_text_api = Some True\<rparr>"
  have c1: "main ?r1 = ([SendPhoto], Some 0)"
    using main_exit_code [of ?r1] by (simp add: send_telegram_photo_def)
  have c2: "main ?r2 = ([SendText], Some 0)"
    using main_exit_code [of ?r2] by (simp add: send_telegram_message_def)
  have c3: "main ?r3 = ([SendPhoto, SendText], Some 1)"
    using main_exit_code [of ?r3]
    by (simp add: send_telegram_message_def send_telegram_photo_def)
  have c4: "main ?r4 = ([], None)"
    using main_exit_code [of ?r4] by simp
  from c1 c2 c3 c4 show ?thesis
    by blast
qed

subsection \<open>Calendar arithmetic\<close>


lemma month_cases:
  "1 \<le> m \<Longrightarrow> m \<le> 12 \<Longrightarrow> m \<in> {1, 2, 3, 4, 5, 6, 7, 8, 9, 10, 11, 12 :: int}"
  by simp presburger

lemma div_step:
  assumes "0 < k"
  shows "(y::int) div k - (y - 1) div k = (if y mod k = 0 then 1 else 0)"
proof -
  define q where "q = y div k"
  define s where "s = y mod k"
  have y: "y = s + k * q" by (simp add: q_def s_def)
  have s: "0 \<le> s" "s < k" using assms by (simp_all add: s_def)
  have a: "y div k = q" by (simp add: q_def)
  have b: "(y - 1) div k = q + (s - 1) div k"
    unfolding y using assms by (metis add_diff_eq diff_add_eq div_mult_self2 less_irrefl add.commute)
  show ?thesis
  proof (cases "s = 0")
    case True
    have "(- 1) div k = (- 1 :: int)" using assms
      by (simp add: zdiv_eq_0_iff div_eq_minus1)
    with True a b show ?thesis by (simp add: s_def)
  next
    case False
    with s have "(s - 1) div k = 0" by (simp add: div_pos_pos_trivial)
    with False a b show ?thesis by (simp add: s_def)
  qed
qed

lemma mod_100_4: "(y::int) mod 100 = 0 \<Longrightarrow> y mod 4 = 0"
  using mod_mod_cancel [of 4 100 y] by simp

lemma mod_400_100: "(y::int) mod 400 = 0 \<Longrightarrow> y mod 100 = 0"
  using mod_mod_cancel [of 100 400 y] by simp

lemma days_before_year_Suc:
  "days_before_year (y + 1) = days_before_year y + (if is_leap y then 366 else 365)"
proof -
  define p4 where "p4 \<longleftrightarrow> y mod 4 = 0"
  define p100 where "p100 \<longleftrightarrow> y mod 100 = 0"
  define p400 where "p400 \<longleftrightarrow> y mod 400 = 0"
  have e4: "y div 4 = (y - 1) div 4 + (if p4 then 1 else 0)"
    using div_step [of 4 y] by (simp add: p4_def)
  have e100: "y div 100 = (y - 1) div 100 + (if p100 then 1 else 0)"
    using div_step [of 100 y] by (simp add: p100_def)
  have e400: "y div 400 = (y - 1) div 400 + (if p400 then 1 else 0)"
    using div_step [of 400 y] by (simp add: p400_def)
  have i1: "p100 \<Longrightarrow> p4"
    unfolding p100_def p4_def by (rule mod_100_4)
  have i2: "p400 \<Longrightarrow> p100"
    unfolding p400_def p100_def by (rule mod_400_100)
  have l: "is_leap y \<longleftrightarrow> p4 \<and> (\<not> p100 \<or> p400)"
    by (simp add: is_leap_def p4_def p100_def p400_def)
  have "days_before_year (y + 1) = y * 365 + y div 4 - y div 100 + y div 400"
    by (simp add: days_before_year_def)
  also have "\<dots> = days_before_year y + (if is_leap y then 366 else 365)"
    unfolding e4 e100 e400 l days_before_year_def using i1 i2
    by (cases p4; cases p100; cases p400) simp_all
  finally show ?thesis .
qed

lemma day_of_year_bounds:
  assumes "valid_date (Date y m d)"
  shows "1 \<le> days_before_month y m + d"
    and "days_before_month y m + d \<le> (if is_leap y then 366 else 365)"
proof -
  from assms have "1 \<le> m" "m \<le> 12" and d: "1 \<le> d" "d \<le> days_in_month y m"
    by (simp_all add: valid_date_def)
  then have m: "m \<in> {1, 2, 3, 4, 5, 6, 7, 8, 9, 10, 11, 12}"
    by (intro month_cases)
  from m d show "1 \<le> days_before_month y m + d"
    by (auto simp: days_before_month_def)
  from m d show "days_before_month y m + d \<le> (if is_leap y then 366 else 365)"
    by (auto simp: days_before_month_def days_in_month_def)
qed

lemma month_end:
  assumes "1 \<le> m" and "m \<le> 11"
  shows "days_before_month y m + days_in_month y m = days_before_month y (m + 1)"
proof -
  from assms have "m \<in> {1, 2, 3, 4, 5, 6, 7, 8, 9, 10, 11, 12}"
    by (intro month_cases) simp_all
  with assms show ?thesis
    by (auto simp: days_before_month_def days_in_month_def)
qed

lemma days_in_month_pos: "1 \<le> m \<Longrightarrow> m \<le> 12 \<Longrightarrow> 28 \<le> days_in_month y m"
  using month_cases [of m] by (auto simp: days_in_month_def)

lemma days_before_month_mono:
  "1 \<le> m \<Longrightarrow> m \<le> m' \<Longrightarrow> m' \<le> 12 \<Longrightarrow> days_before_month y m \<le> days_before_month y m'"
proof (induction "nat (m' - m)" arbitrary: m')
  case 0
  then show ?case by simp
next
  case (Suc k)
  then have k: "k = nat ((m' - 1) - m)" and r: "m \<le> m' - 1" "m' - 1 \<le> 12" "1 \<le> m' - 1" "m' - 1 \<le> 11"
    by linarith+
  from Suc.hyps(1) [OF k Suc.prems(1) r(1) r(2)]
  have "days_before_month y m \<le> days_before_month y (m' - 1)" .
  moreover from month_end [OF r(3) r(4), of y] days_in_month_pos [OF r(3) r(2), of y]
  have "days_before_month y (m' - 1) \<le> days_before_month y m'" by simp
  ultimately show ?case by linarith
qed

lemma day_of_year_mono:
  assumes "valid_date (Date y m d)" and "valid_date (Date y m' d')" and "m < m'"
  shows "days_before_month y m + d < days_before_month y m' + d'"
proof -
  from assms have m: "1 \<le> m" "m \<le> 11" "1 \<le> m + 1" "m + 1 \<le> m'" "m' \<le> 12"
    and d: "d \<le> days_in_month y m" and d': "1 \<le> d'"
    by (simp_all add: valid_date_def)
  from month_end [OF m(1) m(2), of y] days_before_month_mono [OF m(3) m(4) m(5), of y]
  have "days_before_month y m + days_in_month y m \<le> days_before_month y m'"
    by simp
  with d d' show ?thesis by linarith
qed

lemma toordinal_mono:
  assumes "valid_date a" and "valid_date b" and "date_less a b" and "d_year b \<le> d_year a + 1"
  shows "toordinal a < toordinal b"
proof (cases a; cases b)
  fix y m d y' m' d'
  assume a: "a = Date y m d" and b: "b = Date y' m' d'"
  from assms(3,4) a b consider "y' = y + 1" | "y' = y" "m < m'" | "y' = y" "m' = m" "d < d'"
    by (auto simp: date_less_def)
  then show ?thesis
  proof cases
    case 1
    from day_of_year_bounds(2) [of y m d] day_of_year_bounds(1) [of y' m' d'] assms(1,2) a b
    show ?thesis
      by (simp add: toordinal_def 1 days_before_year_Suc split: if_splits)
  next
    case 2
    from day_of_year_mono [of y m d m' d'] assms(1,2) a b 2 show ?thesis
      by (simp add: toordinal_def)
  next
    case 3
    with a b show ?thesis by (simp add: toordinal_def)
  qed
qed

lemma next_occurrence_props:
  assumes "valid_date today" and "next_occurrence today m d = Some bday"
  shows "valid_date bday" and "d_month bday = m" and "d_day bday = d"
    and "\<not> date_less bday today"
    and "0 \<le> toordinal bday - toordinal today"
    and "d_year bday = (if date_less (Date (d_year today) m d) today then d_year today + 1 else d_year today)"
proof -
  from assms(2) have v: "valid_date bday" and md: "d_month bday = m" "d_day bday = d"
    and y: "d_year bday = (if date_less (Date (d_year today) m d) today then d_year today + 1 else d_year today)"
    by (auto simp: next_occurrence_def date_replace_def split: option.splits if_splits)
  from assms(2) have nl: "\<not> date_less bday today"
    by (auto simp: next_occurrence_def date_replace_def date_less_def split: option.splits if_splits)
  show "valid_date bday" "d_month bday = m" "d_day bday = d" by (fact v md)+
  show "\<not> date_less bday today" by (fact nl)
  show "d_year bday = (if date_less (Date (d_year today) m d) today then d_year today + 1 else d_year today)"
    by (fact y)
  show "0 \<le> toordinal bday - toordinal today"
  proof (cases "bday = today")
    case True
    then show ?thesis by simp
  next
    case False
    with nl have "date_less today bday"
      by (cases bday; cases today) (auto simp: date_less_def)
    moreover from y have "d_year bday \<le> d_year today + 1" by (simp split: if_splits)
    ultimately show ?thesis
      using toordinal_mono [OF assms(1) v] by simp
  qed
qed


subsection \<open>Birthday adapter\<close>





lemma format_birthday_cases:
  "format_birthday (du, name, age) =
     (if du = 0 then pstr ''Heute'' else if du = 1 then pstr ''Morgen''
      else pstr ''in '' @ str_int du @ pstr '' Tagen'')
     @ pstr '': '' @ name
     @ (case age of None \<Rightarrow> []
        | Some a \<Rightarrow> if a = 0 then [] else pstr '' ('' @ str_int a @ pstr '')'')"
  by (simp add: format_birthday_def Let_def)




text \<open>
  Claim C10. When the birth year of an entry equals the year of the occurrence
  the adapter settles on, the age computed is 0 and no age is appended: the
  entry is formatted with its prefix and its name only, as an entry without a
  birth year is.
\<close>

theorem birthday_age_zero_omitted:
  assumes "valid_date today"
    and "next_occurrence today m d = Some bday"
    and "toordinal bday - toordinal today \<le> days"
  shows "birthday_item today days
           (name, \<lparr>b_day = Some d, b_month = Some m, b_year = Some (d_year bday)\<rparr>)
           = Some (toordinal bday - toordinal today, name, Some 0)
    \<and> format_birthday (du, name, Some 0) = format_birthday (du, name, None)
    \<and> get_upcoming_birthdays days today
           (Json [(name, \<lparr>b_day = Some d, b_month = Some m, b_year = Some (d_year bday)\<rparr>)])
         = Some [(if toordinal bday - toordinal today = 0 then pstr ''Heute''
                  else if toordinal bday - toordinal today = 1 then pstr ''Morgen''
                  else pstr ''in '' @ str_int (toordinal bday - toordinal today) @ pstr '' Tagen'')
                 @ pstr '': '' @ name]"
proof -
  from next_occurrence_props(1-3) [OF assms(1,2)]
  have nz: "d_year bday \<noteq> 0" "m \<noteq> 0" "d \<noteq> 0"
    by (auto simp: valid_date_def)
  with assms(2,3) have it: "birthday_item today days
           (name, \<lparr>b_day = Some d, b_month = Some m, b_year = Some (d_year bday)\<rparr>)
           = Some (toordinal bday - toordinal today, name, Some 0)"
    by (simp add: birthday_item_def)
  have fm: "format_birthday (du, name, Some 0) = format_birthday (du, name, None)" for du
    by (simp add: format_birthday_cases)
  from it show ?thesis
    by (simp add: get_upcoming_birthdays_def fm format_birthday_cases)
qed

theorem birthday_age_zero_omitted_witness:
  "valid_date (Date 2024 6 10)
   \<and> next_occurrence (Date 2024 6 10) 6 12 = Some (Date 2024 6 12)
   \<and> toordinal (Date 2024 6 12) - toordinal (Date 2024 6 10) \<le> 7
   \<and> get_upcoming_birthdays 7 (Date 2024 6 10)
        (Json [(pstr ''NAME'', \<lparr>b_day = Some 12, b_month = Some 6, b_year = Some 2024\<rparr>)])
      = Some [pstr ''in 2 Tagen: NAME'']"
proof -
  let ?t = "Date 2024 6 10"
  have v: "valid_date ?t"
    by code_simp
  have n: "next_occurrence ?t 6 12 = Some (Date 2024 6 12)"
    by code_simp
  have du: "toordinal (Date 2024 6 12) - toordinal ?t = 2"
    by code_simp
  then have h: "toordinal (Date 2024 6 12) - toordinal ?t \<le> 7"
    by simp
  have s2: "str_int 2 = pstr ''2''"
    by code_simp
  from birthday_age_zero_omitted [OF v n h, of "pstr ''NAME''"]
  have "get_upcoming_birthdays 7 ?t
        (Json [(pstr ''NAME'', \<lparr>b_day = Some 12, b_month = Some 6, b_year = Some 2024\<rparr>)])
      = Some [pstr ''in '' @ str_int 2 @ pstr '' Tagen'' @ pstr '': '' @ pstr ''NAME'']"
    unfolding du by simp
  then have "get_upcoming_birthdays 7 ?t
        (Json [(pstr ''NAME'', \<lparr>b_day = Some 12, b_month = Some 6, b_year = Some 2024\<rparr>)])
      = Some [pstr ''in 2 Tagen: NAME'']"
    by (simp add: s2 pstr_def)
  with v n h show ?thesis
    by blast
qed

subsection \<open>Text wrapping\<close>

lemma split_acc_good:
  "(\<forall>c\<in>set a. \<not> is_space c) \<Longrightarrow> w \<in> set (split_acc a s) \<Longrightarrow> good_word w"
proof (induction s arbitrary: a)
  case Nil
  then show ?case
    by (auto simp: good_word_def split: if_splits)
next
  case (Cons c s)
  show ?case
  proof (cases "is_space c")
    case True
    with Cons.prems(2) have "w = a \<and> a \<noteq> [] \<or> w \<in> set (split_acc [] s)"
      by (auto split: if_splits)
    then show ?thesis
    proof
      assume "w = a \<and> a \<noteq> []"
      with Cons.prems(1) show ?thesis
        by (simp add: good_word_def)
    next
      assume "w \<in> set (split_acc [] s)"
      then show ?thesis
        by (intro Cons.IH [of "[]"]) simp_all
    qed
  next
    case False
    with Cons.prems(2) have "w \<in> set (split_acc (a @ [c]) s)"
      by simp
    moreover from False Cons.prems(1) have "\<forall>c'\<in>set (a @ [c]). \<not> is_space c'"
      by simp
    ultimately show ?thesis
      by (intro Cons.IH [of "a @ [c]"])
  qed
qed

lemma split_ws_good: "w \<in> set (split_ws s) \<Longrightarrow> good_word w"
  using split_acc_good [of "[]" w s] by (simp add: split_ws_def)

lemma split_acc_word:
  "(\<forall>c\<in>set w. \<not> is_space c) \<Longrightarrow> split_acc a (w @ r) = split_acc (a @ w) r"
  by (induction w arbitrary: a) simp_all

lemma is_space_32: "is_space 32"
  by (simp add: is_space_def)

lemma split_ws_join:
  "\<forall>w\<in>set ws. good_word w \<Longrightarrow> split_ws (join [32] ws) = ws"
proof (induction ws rule: induct_list012)
  case 1
  then show ?case by (simp add: split_ws_def)
next
  case (2 x)
  then show ?case
    using split_acc_word [of x "[]" "[]"] by (simp add: split_ws_def good_word_def)
next
  case (3 x y zs)
  from 3(3) have x: "\<forall>c\<in>set x. \<not> is_space c" "x \<noteq> []"
    by (simp_all add: good_word_def)
  from 3(3) have "\<forall>w\<in>set (y # zs). good_word w"
    by simp
  from 3(2) [OF this] have ih: "split_acc [] (join [32] (y # zs)) = y # zs"
    by (simp add: split_ws_def)
  have "split_acc [] (x @ 32 # join [32] (y # zs)) = split_acc x (32 # join [32] (y # zs))"
    using split_acc_word [OF x(1), of "[]"] by simp
  with x(2) ih show ?case
    by (simp add: split_ws_def is_space_32)
qed

lemma dropWhile_id: "s = [] \<or> \<not> P (hd s) \<Longrightarrow> dropWhile P s = s"
  by (cases s) auto

lemma strip_id:
  assumes "s = [] \<or> (\<not> is_space (hd s) \<and> \<not> is_space (last s))"
  shows "strip s = s"
proof (cases "s = []")
  case True
  then show ?thesis by (simp add: strip_def lstrip_def rstrip_def)
next
  case False
  with assms have h: "\<not> is_space (hd s)" and l: "\<not> is_space (last s)"
    by simp_all
  from h have a: "dropWhile is_space s = s"
    by (simp add: dropWhile_id)
  from False l have "\<not> is_space (hd (rev s))"
    by (simp add: hd_rev)
  then have "dropWhile is_space (rev s) = rev s"
    by (simp add: dropWhile_id)
  with a show ?thesis
    by (simp add: strip_def lstrip_def rstrip_def)
qed

lemma join_ends:
  assumes "ws \<noteq> []" and "\<forall>w\<in>set ws. w \<noteq> []"
  shows "join sep ws \<noteq> [] \<and> hd (join sep ws) = hd (hd ws) \<and> last (join sep ws) = last (last ws)"
  using assms
proof (induction ws rule: induct_list012)
  case 1
  then show ?case by simp
next
  case (2 x)
  then show ?case by simp
next
  case (3 x y zs)
  from 3(2) 3(4) have "join sep (y # zs) \<noteq> [] \<and> last (join sep (y # zs)) = last (last (y # zs))"
    by simp
  with 3(4) show ?case
    by simp
qed

lemma strip_join:
  assumes "\<forall>w\<in>set ws. good_word w"
  shows "strip (join [32] ws) = join [32] ws"
proof (cases "ws = []")
  case True
  then show ?thesis by (simp add: strip_id)
next
  case False
  from assms have ne: "\<forall>w\<in>set ws. w \<noteq> []"
    by (simp add: good_word_def)
  from False assms have "good_word (hd ws)" "good_word (last ws)"
    by simp_all
  then have "\<not> is_space (hd (hd ws))" "\<not> is_space (last (last ws))"
    by (simp_all add: good_word_def)
  with join_ends [OF False ne, of "[32]"] show ?thesis
    by (intro strip_id) simp
qed

lemma accepted_snoc:
  assumes "accepted tw mw cur" and "tw (join [32] (cur @ [w])) \<le> mw \<or> cur = []"
  shows "accepted tw mw (cur @ [w])"
  unfolding accepted_def
proof (intro allI impI)
  fix k
  assume k: "2 \<le> k \<and> k \<le> length (cur @ [w])"
  show "tw (join [32] (take k (cur @ [w]))) \<le> mw"
  proof (cases "k \<le> length cur")
    case True
    with assms(1) k show ?thesis
      by (simp add: accepted_def)
  next
    case False
    with k have "k = length cur + 1" by simp
    with k assms(2) show ?thesis by auto
  qed
qed

lemma wrap_loop_accepted:
  assumes "\<forall>w\<in>set (cur @ rest). good_word w" and "accepted tw mw (cur @ rest)"
    and "cur @ rest \<noteq> []"
  shows "wrap_loop tw mw rest lines cur = lines @ [join [32] (cur @ rest)]"
  using assms
proof (induction rest arbitrary: cur)
  case Nil
  then show ?case by simp
next
  case (Cons w rest)
  from Cons.prems(1) have g: "\<forall>v\<in>set (cur @ [w]). good_word v"
    by simp
  have fit: "tw (join [32] (cur @ [w])) \<le> mw \<or> cur = []"
  proof (cases "cur = []")
    case True
    then show ?thesis by simp
  next
    case False
    then have "2 \<le> length cur + 1 \<and> length cur + 1 \<le> length (cur @ w # rest)"
      by (cases cur) simp_all
    with Cons.prems(2) have "tw (join [32] (take (length cur + 1) (cur @ w # rest))) \<le> mw"
      unfolding accepted_def by blast
    then show ?thesis by simp
  qed
  from Cons.prems have "wrap_loop tw mw rest lines (cur @ [w]) = lines @ [join [32] ((cur @ [w]) @ rest)]"
    by (intro Cons.IH) simp_all
  with fit show ?case
    by (simp add: strip_join [OF g] Let_def)
qed

lemma wrap_loop_lines:
  assumes "\<forall>l\<in>set lines. wrapped_line tw mw l" and "\<forall>w\<in>set cur. good_word w"
    and "accepted tw mw cur" and "\<forall>w\<in>set words. good_word w"
    and "l \<in> set (wrap_loop tw mw words lines cur)"
  shows "wrapped_line tw mw l"
  using assms
proof (induction words arbitrary: lines cur)
  case Nil
  then show ?case
    by (auto simp: wrapped_line_def split: if_splits)
next
  case (Cons w words)
  from Cons.prems(2,4) have g: "\<forall>v\<in>set (cur @ [w]). good_word v"
    by simp
  show ?case
  proof (cases "tw (join [32] (cur @ [w])) \<le> mw \<or> cur = []")
    case True
    with Cons.prems(5) have m: "l \<in> set (wrap_loop tw mw words lines (cur @ [w]))"
      by (simp add: strip_join [OF g] Let_def)
    from accepted_snoc [OF Cons.prems(3) True] have "accepted tw mw (cur @ [w])" .
    with Cons.prems(1,4) g m show ?thesis
      by (intro Cons.IH [of lines "cur @ [w]"]) simp_all
  next
    case False
    with Cons.prems(5) have m: "l \<in> set (wrap_loop tw mw words (lines @ [join [32] cur]) [w])"
      by (simp add: strip_join [OF g] Let_def)
    from False Cons.prems(2,3) have "wrapped_line tw mw (join [32] cur)"
      unfolding wrapped_line_def by blast
    with Cons.prems(1) have a: "\<forall>l\<in>set (lines @ [join [32] cur]). wrapped_line tw mw l"
      by simp
    have b: "accepted tw mw [w]"
      by (simp add: accepted_def)
    from Cons.prems(4) a b m show ?thesis
      by (intro Cons.IH [of "lines @ [join [32] cur]" "[w]"]) simp_all
  qed
qed

lemma wrap_wrapped_line:
  assumes "wrapped_line tw mw l"
  shows "wrap tw l mw = [l]"
proof -
  from assms obtain g where g: "g \<noteq> []" "\<forall>w\<in>set g. good_word w" "accepted tw mw g" "l = join [32] g"
    unfolding wrapped_line_def by blast
  from g(2) have "split_ws l = g"
    unfolding g(4) by (rule split_ws_join)
  moreover from g(1-3) have "wrap_loop tw mw g [] [] = [] @ [join [32] ([] @ g)]"
    by (intro wrap_loop_accepted) simp_all
  ultimately show ?thesis
    by (simp add: wrap_def g(4))
qed

lemma wrap_loop_words:
  assumes "\<forall>w\<in>set cur. good_word w" and "\<forall>w\<in>set words. good_word w"
  shows "concat (map split_ws (wrap_loop tw mw words lines cur))
    = concat (map split_ws lines) @ cur @ words"
  using assms
proof (induction words arbitrary: lines cur)
  case Nil
  then show ?case
    by (simp add: split_ws_join)
next
  case (Cons w words)
  from Cons.prems have g: "\<forall>v\<in>set (cur @ [w]). good_word v"
    by simp
  show ?case
  proof (cases "tw (join [32] (cur @ [w])) \<le> mw \<or> cur = []")
    case True
    with Cons.prems g Cons.IH [of "cur @ [w]" lines] show ?thesis
      by (simp add: strip_join [OF g] Let_def)
  next
    case False
    with Cons.prems Cons.IH [of "[w]" "lines @ [join [32] cur]"] show ?thesis
      by (simp add: strip_join [OF g] Let_def split_ws_join)
  qed
qed

text \<open>
  Claim C3. For every text, measurement function and maximal width, wrapping any
  line of the wrap's own output again, with the same measurement and width,
  gives back exactly that line; so wrapping each line of the output on its own
  reproduces the output, line boundaries included. (The words of the output, in
  order, are the words of the text: none is split, lost or added.)
\<close>

theorem wrap_idempotent:
  "(\<forall>l \<in> set (wrap tw text max_width). wrap tw l max_width = [l])
   \<and> concat (map (\<lambda>l. wrap tw l max_width) (wrap tw text max_width)) = wrap tw text max_width
   \<and> concat (map split_ws (wrap tw text max_width)) = split_ws text"
proof -
  have a: "\<forall>l \<in> set (wrap tw text max_width). wrap tw l max_width = [l]"
  proof
    fix l
    assume "l \<in> set (wrap tw text max_width)"
    then have "wrapped_line tw max_width l"
      unfolding wrap_def
      by (intro wrap_loop_lines [of "[]" tw max_width "[]" "split_ws text"])
        (simp_all add: accepted_def split_ws_good)
    then show "wrap tw l max_width = [l]"
      by (rule wrap_wrapped_line)
  qed
  have "(\<forall>l \<in> set ls. wrap tw l max_width = [l]) \<Longrightarrow>
      concat (map (\<lambda>l. wrap tw l max_width) ls) = ls" for ls
    by (induction ls) simp_all
  with a have b: "concat (map (\<lambda>l. wrap tw l max_width) (wrap tw text max_width))
      = wrap tw text max_width"
    by blast
  have c: "concat (map split_ws (wrap tw text max_width)) = split_ws text"
    using wrap_loop_words [of "[]" "split_ws text" tw max_width "[]"]
    by (simp add: wrap_def split_ws_good)
  from a b c show ?thesis
    by blast
qed

theorem wrap_idempotent_witness:
  "wrap (\<lambda>s. 20 * int (length s)) (pstr '' aa b  cccccc d '') 80
     = [pstr ''aa b'', pstr ''cccccc'', pstr ''d'']
   \<and> wrap (\<lambda>s. 20 * int (length s)) (pstr ''aa b'') 80 = [pstr ''aa b'']
   \<and> wrap (\<lambda>s. 20 * int (length s)) (pstr ''cccccc'') 80 = [pstr ''cccccc'']
   \<and> wrap (\<lambda>s. 20 * int (length s)) (pstr ''d'') 80 = [pstr ''d'']"
proof -
  let ?tw = "\<lambda>s::pystr. 20 * int (length s)"
  let ?text = "pstr '' aa b  cccccc d ''"
  have w: "wrap ?tw ?text 80 = [pstr ''aa b'', pstr ''cccccc'', pstr ''d'']"
    by (simp add: wrap_def split_ws_def str_eval Let_def)
  note t = wrap_idempotent [of ?tw ?text 80, THEN conjunct1, unfolded w]
  from t have "wrap ?tw (pstr ''aa b'') 80 = [pstr ''aa b'']"
    "wrap ?tw (pstr ''cccccc'') 80 = [pstr ''cccccc'']"
    "wrap ?tw (pstr ''d'') 80 = [pstr ''d'']"
    by simp_all
  with w show ?thesis
    by blast
qed

subsection \<open>Card layout\<close>

























end
